theory Spec2Isabelle
  imports Complex_Main
begin

section \<open>JavaScript values used by the pages\<close>

text \<open>
  A field of type \<open>string | null\<close> is a \<open>string option\<close>. In a condition JavaScript
  takes such a value as true exactly when it is a non-empty string.
\<close>

definition truthy :: "string option \<Rightarrow> bool" where
  "truthy v = (case v of None \<Rightarrow> False | Some s \<Rightarrow> s \<noteq> [])"

text \<open>
  A JavaScript \<open>Set\<close> iterates in insertion order and ignores a second \<open>add\<close> of a
  member: a list without repetitions, new members at the end. \<open>size\<close> is its length.
\<close>

definition set_add :: "'a \<Rightarrow> 'a list \<Rightarrow> 'a list" where
  "set_add x xs = (if x \<in> set xs then xs else xs @ [x])"

text \<open>\<open>if (v) s.add(v)\<close> for a nullable string \<open>v\<close>.\<close>

definition add_if_truthy :: "string option \<Rightarrow> string list \<Rightarrow> string list" where
  "add_if_truthy v xs = (case v of None \<Rightarrow> xs | Some s \<Rightarrow> if s = [] then xs else set_add s xs)"

text \<open>\<open>new Set(v ? [v] : [])\<close> for a nullable string \<open>v\<close>.\<close>

definition set_of_truthy :: "string option \<Rightarrow> string list" where
  "set_of_truthy v = (case v of None \<Rightarrow> [] | Some s \<Rightarrow> if s = [] then [] else [s])"

text \<open>
  A JavaScript \<open>Map\<close> with string keys, in insertion order: \<open>get\<close> is a lookup, and
  \<open>set\<close> replaces the value of a key where it stands or appends a new key.
\<close>

type_synonym 'v js_map = "(string \<times> 'v) list"

fun map_get :: "'v js_map \<Rightarrow> string \<Rightarrow> 'v option" where
  "map_get [] k = None"
| "map_get ((k', v) # m) k = (if k' = k then Some v else map_get m k)"

fun map_set :: "string \<Rightarrow> 'v \<Rightarrow> 'v js_map \<Rightarrow> 'v js_map" where
  "map_set k v [] = [(k, v)]"
| "map_set k v ((k', v') # m) = (if k' = k then (k, v) # m else (k', v') # map_set k v m)"

definition map_values :: "'v js_map \<Rightarrow> 'v list" where
  "map_values m = map snd m"

text \<open>
  \<open>Array.prototype.sort(cmp)\<close>. The language standard requires a stable sort; with a
  comparator that is a consistent ordering of the elements the result is therefore
  the one stable sorted arrangement, which insertion from the right computes: an
  element goes in front of the first later element it does not compare greater than.
  With an inconsistent comparator the standard leaves the order to the
  implementation, and this function is one such implementation.
\<close>

fun insert_by :: "('a \<Rightarrow> 'a \<Rightarrow> int) \<Rightarrow> 'a \<Rightarrow> 'a list \<Rightarrow> 'a list" where
  "insert_by cmp x [] = [x]"
| "insert_by cmp x (y # ys) = (if cmp x y \<le> 0 then x # y # ys else y # insert_by cmp x ys)"

fun js_sort :: "('a \<Rightarrow> 'a \<Rightarrow> int) \<Rightarrow> 'a list \<Rightarrow> 'a list" where
  "js_sort cmp [] = []"
| "js_sort cmp (x # xs) = insert_by cmp x (js_sort cmp xs)"

section \<open>Vulnerabilities page\<close>

text \<open>
  The component \<open>VulnerabilitiesPage\<close> (in \<open>frontend/src/components/StatusBadge.tsx\<close>,
  which holds several source files one after another): the memo \<open>filtered\<close> (lines 479
  to 493), the memo \<open>sortedPackages\<close> (lines 496 to 537), the counts of the header (lines
  540 to 552) and the rows \<open>csvPackages\<close> of the export (lines 585 to 595).
\<close>

text \<open>The severity string that the page tests for.\<close>

definition Critical :: string where
  "Critical = ''Critical''"

text \<open>\<open>VulnDetailEntry\<close> of \<open>types/index.ts\<close>.\<close>

record VulnDetailEntry =
  instance_name :: string
  vuln_id :: string
  severity :: string
  package :: "string option"
  version :: "string option"
  fix_version :: "string option"
  hostname :: "string option"
  external_ip :: "string option"
  instance_id_tag :: "string option"
  status :: string

text \<open>The value type of the \<open>packageGroups\<close> map (fields prefixed \<open>g_\<close>).\<close>

record PackageGroup =
  g_package :: string
  g_severity :: string
  g_versions :: "string list"
  g_fix_versions :: "string list"
  g_cves :: "string list"
  g_hosts :: "string list"
  g_instances :: "string list"
  g_count :: nat

text \<open>\<open>item.package ?? 'unknown'\<close>\<close>

definition pkg_of :: "VulnDetailEntry \<Rightarrow> string" where
  "pkg_of item = (case package item of None \<Rightarrow> ''unknown'' | Some p \<Rightarrow> p)"

text \<open>The \<open>else\<close> branch of the loop body: the group a first finding of a package opens.\<close>

definition new_group :: "VulnDetailEntry \<Rightarrow> PackageGroup" where
  "new_group item =
     \<lparr> g_package = pkg_of item,
       g_severity = severity item,
       g_versions = set_of_truthy (version item),
       g_fix_versions = set_of_truthy (fix_version item),
       g_cves = [vuln_id item],
       g_hosts = set_of_truthy (hostname item),
       g_instances = [instance_name item],
       g_count = 1 \<rparr>"

text \<open>The \<open>if (existing)\<close> branch: the updates of the group in the order of the source.\<close>

definition update_group :: "VulnDetailEntry \<Rightarrow> PackageGroup \<Rightarrow> PackageGroup" where
  "update_group item existing =
     existing
       \<lparr> g_count := g_count existing + 1,
         g_versions := add_if_truthy (version item) (g_versions existing),
         g_fix_versions := add_if_truthy (fix_version item) (g_fix_versions existing),
         g_cves := set_add (vuln_id item) (g_cves existing),
         g_hosts := add_if_truthy (hostname item) (g_hosts existing),
         g_instances := set_add (instance_name item) (g_instances existing),
         g_severity := (if severity item = Critical then Critical else g_severity existing) \<rparr>"

text \<open>One iteration of \<open>for (const item of filtered)\<close>.\<close>

definition add_item :: "PackageGroup js_map \<Rightarrow> VulnDetailEntry \<Rightarrow> PackageGroup js_map" where
  "add_item m item =
     (case map_get m (pkg_of item) of
        Some existing \<Rightarrow> map_set (pkg_of item) (update_group item existing) m
      | None \<Rightarrow> map_set (pkg_of item) (new_group item) m)"

definition packageGroups :: "VulnDetailEntry list \<Rightarrow> PackageGroup js_map" where
  "packageGroups items = foldl add_item [] items"

text \<open>
  The comparator handed to \<open>sort\<close>: for two different severities it answers by whether
  the first is Critical, for equal severities by the difference of the sizes of the
  host sets.
\<close>

definition group_cmp :: "PackageGroup \<Rightarrow> PackageGroup \<Rightarrow> int" where
  "group_cmp a b =
     (if g_severity a \<noteq> g_severity b then (if g_severity a = Critical then - 1 else 1)
      else int (length (g_hosts b)) - int (length (g_hosts a)))"

definition sortedPackages :: "VulnDetailEntry list \<Rightarrow> PackageGroup list" where
  "sortedPackages items = js_sort group_cmp (map_values (packageGroups items))"

text \<open>
  The same loop as a relation between the map before the remaining findings and the
  map after them: one rule for the end of the list and one for each branch of the
  body. A run of the memo starts from the empty map and sorts the values of the map
  the loop ends with.
\<close>

inductive group_loop ::
  "PackageGroup js_map \<Rightarrow> VulnDetailEntry list \<Rightarrow> PackageGroup js_map \<Rightarrow> bool" where
  loop_end: "group_loop m [] m"
| loop_existing:
    "map_get m (pkg_of item) = Some existing \<Longrightarrow>
     group_loop (map_set (pkg_of item) (update_group item existing) m) rest m' \<Longrightarrow>
     group_loop m (item # rest) m'"
| loop_new:
    "map_get m (pkg_of item) = None \<Longrightarrow>
     group_loop (map_set (pkg_of item) (new_group item) m) rest m' \<Longrightarrow>
     group_loop m (item # rest) m'"

inductive sortedPackages_run :: "VulnDetailEntry list \<Rightarrow> PackageGroup list \<Rightarrow> bool" where
  run_sorted:
    "group_loop [] items m \<Longrightarrow> sortedPackages_run items (js_sort group_cmp (map_values m))"

subsection \<open>The filters\<close>

text \<open>
  \<open>toLowerCase\<close> on the letters A to Z (other characters are left as they are), and
  \<open>includes\<close> as the search for a contiguous substring.
\<close>

definition toLowerCase :: "string \<Rightarrow> string" where
  "toLowerCase s =
     map (\<lambda>c. if (65::nat) \<le> of_char c \<and> of_char c \<le> (90::nat)
              then char_of (of_char c + (32::nat)) else c) s"

fun starts_with :: "string \<Rightarrow> string \<Rightarrow> bool" where
  "starts_with s [] = True"
| "starts_with [] (c # cs) = False"
| "starts_with (d # ds) (c # cs) = (d = c \<and> starts_with ds cs)"

fun str_includes :: "string \<Rightarrow> string \<Rightarrow> bool" where
  "str_includes [] sub = (sub = [])"
| "str_includes (c # cs) sub = (starts_with (c # cs) sub \<or> str_includes cs sub)"

text \<open>\<open>v ?? ''\<close>\<close>

definition or_empty :: "string option \<Rightarrow> string" where
  "or_empty v = (case v of None \<Rightarrow> [] | Some s \<Rightarrow> s)"

text \<open>The state of the page that the filter reads.\<close>

record VulnFilters =
  search :: string
  instanceFilter :: string
  severityFilter :: string
  internetExposed :: bool
  fixableOnly :: bool

text \<open>\<open>VulnPageData\<close> without its per-instance summaries, which the code below never reads.\<close>

record VulnPageData =
  total_critical :: int
  total_high :: int
  items :: "VulnDetailEntry list"

definition matchesSearch :: "VulnFilters \<Rightarrow> VulnDetailEntry \<Rightarrow> bool" where
  "matchesSearch flt item =
     (let searchLower = toLowerCase (search flt) in
      search flt = [] \<or>
      str_includes (toLowerCase (vuln_id item)) searchLower \<or>
      str_includes (toLowerCase (or_empty (package item))) searchLower \<or>
      str_includes (toLowerCase (or_empty (hostname item))) searchLower \<or>
      str_includes (toLowerCase (or_empty (instance_id_tag item))) searchLower)"

definition matchesInstance :: "VulnFilters \<Rightarrow> VulnDetailEntry \<Rightarrow> bool" where
  "matchesInstance flt item = (instanceFilter flt = ''all'' \<or> instance_name item = instanceFilter flt)"

definition matchesSeverity :: "VulnFilters \<Rightarrow> VulnDetailEntry \<Rightarrow> bool" where
  "matchesSeverity flt item = (severityFilter flt = ''all'' \<or> severity item = severityFilter flt)"

definition matchesExposed :: "VulnFilters \<Rightarrow> VulnDetailEntry \<Rightarrow> bool" where
  "matchesExposed flt item =
     (\<not> internetExposed flt \<or> (external_ip item \<noteq> None \<and> external_ip item \<noteq> Some []))"

definition matchesFixable :: "VulnFilters \<Rightarrow> VulnDetailEntry \<Rightarrow> bool" where
  "matchesFixable flt item =
     (\<not> fixableOnly flt \<or> (fix_version item \<noteq> None \<and> fix_version item \<noteq> Some []))"

definition filtered :: "VulnFilters \<Rightarrow> VulnPageData option \<Rightarrow> VulnDetailEntry list" where
  "filtered flt data =
     (case data of
        None \<Rightarrow> []
      | Some d \<Rightarrow>
          filter (\<lambda>item. matchesSearch flt item \<and> matchesInstance flt item \<and>
                    matchesSeverity flt item \<and> matchesExposed flt item \<and> matchesFixable flt item)
            (items d))"

text \<open>The page as it opens: \<open>Critical\<close> only, internet exposed only.\<close>

definition initial_filters :: VulnFilters where
  "initial_filters =
     \<lparr> search = [], instanceFilter = ''all'', severityFilter = Critical,
       internetExposed = True, fixableOnly = False \<rparr>"

subsection \<open>The counts of the header\<close>

definition exposedCritical :: "VulnPageData option \<Rightarrow> nat" where
  "exposedCritical data =
     (case data of
        None \<Rightarrow> 0
      | Some d \<Rightarrow> length (filter (\<lambda>i. severity i = Critical \<and> truthy (external_ip i)) (items d)))"

definition exposedHosts :: "VulnPageData option \<Rightarrow> nat" where
  "exposedHosts data =
     (case data of
        None \<Rightarrow> 0
      | Some d \<Rightarrow>
          length (foldl (\<lambda>s h. set_add h s) []
                    (map hostname (filter (\<lambda>i. truthy (external_ip i)) (items d)))))"

definition exposedByInstance :: "VulnPageData option \<Rightarrow> nat js_map" where
  "exposedByInstance data =
     (case data of
        None \<Rightarrow> []
      | Some d \<Rightarrow>
          foldl (\<lambda>ebi item.
                   if severity item = Critical \<and> truthy (external_ip item)
                   then map_set (instance_name item)
                          ((case map_get ebi (instance_name item) of None \<Rightarrow> 0 | Some n \<Rightarrow> n) + 1) ebi
                   else ebi)
            [] (items d))"

subsection \<open>The rows of the package summary export\<close>

fun join :: "string \<Rightarrow> string list \<Rightarrow> string" where
  "join sep [] = []"
| "join sep [x] = x"
| "join sep (x # y # ys) = x @ sep @ join sep (y # ys)"

record PackageRow =
  r_package :: string
  r_severity :: string
  cve_count :: nat
  cves :: string
  current_versions :: string
  fix_versions :: string
  affected_hosts :: nat
  hostnames :: string
  instances :: string

definition package_row :: "PackageGroup \<Rightarrow> PackageRow" where
  "package_row p =
     \<lparr> r_package = g_package p,
       r_severity = g_severity p,
       cve_count = length (g_cves p),
       cves = join ''; '' (g_cves p),
       current_versions = join ''; '' (g_versions p),
       fix_versions = join ''; '' (g_fix_versions p),
       affected_hosts = length (g_hosts p),
       hostnames = join ''; '' (g_hosts p),
       instances = join ''; '' (g_instances p) \<rparr>"

definition csvPackages :: "PackageGroup list \<Rightarrow> PackageRow list" where
  "csvPackages groups = map package_row groups"

subsection \<open>The order the specification asks for\<close>

text \<open>
  The specification's order of severities, Critical > High > Medium > Low > Info, as a
  rank; a string that is none of the five ranks with Info.
\<close>

definition severity_rank :: "string \<Rightarrow> nat" where
  "severity_rank s =
     (if s = Critical then 4 else if s = ''High'' then 3 else if s = ''Medium'' then 2
      else if s = ''Low'' then 1 else 0)"

text \<open>Strings in ascending order: by character codes, a proper prefix first.\<close>

fun string_le :: "string \<Rightarrow> string \<Rightarrow> bool" where
  "string_le [] t = True"
| "string_le (c # cs) [] = False"
| "string_le (c # cs) (d # ds) =
     ((of_char c :: nat) < of_char d \<or> (c = d \<and> string_le cs ds))"

text \<open>
  The specification's sort of the groups: severity descending, then the number of
  affected hosts descending, then the package name ascending.
\<close>

definition spec_before :: "PackageGroup \<Rightarrow> PackageGroup \<Rightarrow> bool" where
  "spec_before a b =
     (severity_rank (g_severity b) < severity_rank (g_severity a) \<or>
      (severity_rank (g_severity a) = severity_rank (g_severity b) \<and>
       (length (g_hosts b) < length (g_hosts a) \<or>
        (length (g_hosts a) = length (g_hosts b) \<and> string_le (g_package a) (g_package b)))))"

text \<open>The worst severity among the findings of a list, by rank.\<close>

definition worst_rank :: "VulnDetailEntry list \<Rightarrow> nat" where
  "worst_rank fs = foldl max 0 (map (\<lambda>f. severity_rank (severity f)) fs)"

subsection \<open>Notions that describe the result\<close>

text \<open>
  The order the comparator of the code describes: a Critical group before one that is
  not, and among groups of one severity the one with more hosts first.
\<close>

definition code_before :: "PackageGroup \<Rightarrow> PackageGroup \<Rightarrow> bool" where
  "code_before a b =
     ((g_severity a = Critical \<and> g_severity b \<noteq> Critical) \<or>
      (g_severity a = g_severity b \<and> length (g_hosts b) \<le> length (g_hosts a)))"

text \<open>The packages of a list of findings, each once, in the order of first appearance.\<close>

definition first_seen :: "VulnDetailEntry list \<Rightarrow> string list" where
  "first_seen fs = foldl (\<lambda>s k. set_add k s) [] (map pkg_of fs)"

text \<open>The findings of one package, in the order of the list.\<close>

definition members :: "string \<Rightarrow> VulnDetailEntry list \<Rightarrow> VulnDetailEntry list" where
  "members k fs = filter (\<lambda>f. pkg_of f = k) fs"

text \<open>
  The group that the loop body builds from the findings of one package alone: the
  first opens it, the others update it in turn.
\<close>

fun group_of :: "VulnDetailEntry list \<Rightarrow> PackageGroup option" where
  "group_of [] = None"
| "group_of (f # fs) = Some (foldl (\<lambda>g x. update_group x g) (new_group f) fs)"

text \<open>The non-empty strings among nullable values.\<close>

definition present :: "string option list \<Rightarrow> string list" where
  "present vs = concat (map (\<lambda>v. case v of None \<Rightarrow> [] | Some s \<Rightarrow> if s = [] then [] else [s]) vs)"

section \<open>Identities page\<close>

text \<open>
  The component \<open>IdentitiesPage\<close> of the same file: the condition \<open>matchesUnused\<close> of
  its filter (line 110) and the last-used cell of its table (lines 308 to 318). An
  identity is given with the two fields that these read; \<open>days_unused\<close> is a whole number
  of days or null.
\<close>

record IdentityEntry =
  last_used :: "string option"
  days_unused :: "int option"

text \<open>\<open>matchesUnused\<close> of the filter, with the toggle \<open>unusedOnly\<close>.\<close>

definition matchesUnused :: "bool \<Rightarrow> IdentityEntry \<Rightarrow> bool" where
  "matchesUnused unusedOnly item =
     (\<not> unusedOnly \<or> (case days_unused item of None \<Rightarrow> False | Some d \<Rightarrow> 180 \<le> d))"

text \<open>
  What the last-used cell of the table shows: the days with their highlight class,
  the date of the timestamp (its formatting is the browser's), or the word never.
\<close>

datatype last_used_cell = DaysAgo int string | DateOf string | Never

definition last_used_cell :: "IdentityEntry \<Rightarrow> last_used_cell" where
  "last_used_cell item =
     (case days_unused item of
        Some d \<Rightarrow>
          DaysAgo d (if 180 \<le> d then ''text-red-600 dark:text-red-400 font-medium''
                     else if 90 \<le> d then ''text-orange-600 dark:text-orange-400'' else [])
      | None \<Rightarrow>
          (case last_used item of
             None \<Rightarrow> Never
           | Some t \<Rightarrow> if t = [] then Never else DateOf t))"

text \<open>
  Modelled from the spec: the function that computes an identity's unused-entitlement
  percentage belongs to the aggregation service, which is not among the source files;
  the pages only display the number they receive. The specification gives it as unused
  over total entitlements, as a percentage, and 0 when the total is 0, so that no
  division by zero occurs. The entitlement statistics of an identity are two counts,
  the unused entitlements being among the total; the quotient is taken exactly; and a
  division by zero is a fault, as it is in the language of the service.
\<close>

record EntitlementStats =
  entitlements_total :: nat
  entitlements_unused :: nat

datatype fault = ZeroDivisionError

definition divide_or_fault :: "real \<Rightarrow> real \<Rightarrow> fault + real" where
  "divide_or_fault a b = (if b = 0 then Inl ZeroDivisionError else Inr (a / b))"

definition unused_entitlement_pct :: "EntitlementStats \<Rightarrow> fault + real" where
  "unused_entitlement_pct st =
     (if entitlements_total st = 0 then Inr 0
      else case divide_or_fault (real (entitlements_unused st)) (real (entitlements_total st)) of
             Inl e \<Rightarrow> Inl e
           | Inr q \<Rightarrow> Inr (100 * q))"

section \<open>CSV export\<close>

text \<open>
  The functions \<open>escapeCsvField\<close> and \<open>downloadCsv\<close> of the download button (lines 9 to 35
  of \<open>unnamed/part_006\<close>).

  A cell value is \<open>null\<close>, \<open>undefined\<close>, a string, or any other value that \<open>String(...)\<close>
  converts to a string (a number in the exports of the pages), the conversion being a
  parameter. A value whose conversion throws belongs to the larger type \<open>js_unknown\<close>
  further down.
\<close>

datatype 'n js_value = JNull | JUndefined | JString string | JOther 'n

definition js_String :: "('n \<Rightarrow> string) \<Rightarrow> 'n js_value \<Rightarrow> string" where
  "js_String conv v =
     (case v of JNull \<Rightarrow> ''null'' | JUndefined \<Rightarrow> ''undefined'' | JString s \<Rightarrow> s | JOther n \<Rightarrow> conv n)"

definition dquote :: char where
  "dquote = CHR 0x22"

definition newline :: char where
  "newline = CHR 0x0A"

text \<open>\<open>str.replace(/"/g, '""')\<close>\<close>

definition replace_quotes :: "string \<Rightarrow> string" where
  "replace_quotes str = concat (map (\<lambda>c. if c = dquote then [dquote, dquote] else [c]) str)"

text \<open>\<open>escapeCsvField\<close> on a value that \<open>String(...)\<close> converts.\<close>

definition escapeCsvField :: "('n \<Rightarrow> string) \<Rightarrow> 'n js_value \<Rightarrow> string" where
  "escapeCsvField conv v =
     (if v = JNull \<or> v = JUndefined then []
      else
        let str = js_String conv v in
        if CHR '','' \<in> set str \<or> dquote \<in> set str \<or> newline \<in> set str
        then [dquote] @ replace_quotes str @ [dquote]
        else str)"

text \<open>
  Any value at all, as the parameter type \<open>unknown\<close> of \<open>escapeCsvField\<close> admits: a value
  that \<open>String(...)\<close> converts, or an object whose conversion throws. The exception is a
  \<open>TypeError\<close> when the object has neither a usable \<open>toString\<close> nor a usable \<open>valueOf\<close>
  (as \<open>Object.create(null)\<close>), and otherwise what its own \<open>toString\<close> or \<open>valueOf\<close>
  throws, given by its message.
\<close>

datatype js_exception = TypeError | Thrown string

datatype 'n js_unknown = Converts "'n js_value" | Throws js_exception

definition String_call :: "('n \<Rightarrow> string) \<Rightarrow> 'n js_unknown \<Rightarrow> js_exception + string" where
  "String_call conv u = (case u of Converts v \<Rightarrow> Inr (js_String conv v) | Throws e \<Rightarrow> Inl e)"

text \<open>
  A call of \<open>escapeCsvField\<close> on any value, in the three steps of the source: the test
  \<open>value == null\<close>, the conversion \<open>String(value)\<close>, whose exception ends the call, and
  the quoting of the string.
\<close>

definition escapeCsvField_call ::
  "('n \<Rightarrow> string) \<Rightarrow> 'n js_unknown \<Rightarrow> js_exception + string" where
  "escapeCsvField_call conv u =
     (if u = Converts JNull \<or> u = Converts JUndefined then Inr []
      else
        case String_call conv u of
          Inl e \<Rightarrow> Inl e
        | Inr str \<Rightarrow>
            if CHR '','' \<in> set str \<or> dquote \<in> set str \<or> newline \<in> set str
            then Inr ([dquote] @ replace_quotes str @ [dquote])
            else Inr str)"







text \<open>
  The specification of a quoted field, character by character: an opening quote; then
  each character of the text, a double quote written twice; then a closing quote.
\<close>

fun quoted_body :: "string \<Rightarrow> string" where
  "quoted_body [] = [dquote]"
| "quoted_body (c # cs) = (if c = dquote then dquote # dquote # quoted_body cs else c # quoted_body cs)"

definition quoted :: "string \<Rightarrow> string" where
  "quoted s = dquote # quoted_body s"

definition needs_quoting :: "string \<Rightarrow> bool" where
  "needs_quoting s = (\<exists>c \<in> set s. c = CHR '','' \<or> c = dquote \<or> c = newline)"





section \<open>Example data\<close>

text \<open>
  A finding of tenant \<open>t1\<close> with the given CVE, severity, package, host and external
  IP, and no version information.
\<close>

definition finding ::
  "string \<Rightarrow> string \<Rightarrow> string option \<Rightarrow> string option \<Rightarrow> string option \<Rightarrow> VulnDetailEntry" where
  "finding cve sev pkg host ip =
     \<lparr> instance_name = ''t1'', vuln_id = cve, severity = sev, package = pkg,
       version = None, fix_version = None, hostname = host, external_ip = ip,
       instance_id_tag = None, status = ''Active'' \<rparr>"

section \<open>Maps, sets and sorting\<close>

lemma map_get_set: "map_get (map_set k v m) k' = (if k' = k then Some v else map_get m k')"
  by (induction m) auto

lemma truthy_iff: "truthy v \<longleftrightarrow> (\<exists>s. v = Some s \<and> s \<noteq> [])"
  by (cases v) (simp_all add: truthy_def)

subsection \<open>Sets and maps\<close>

lemma set_set_add: "set (set_add x xs) = insert x (set xs)"
  by (auto simp: set_add_def)

lemma distinct_set_add: "distinct xs \<Longrightarrow> distinct (set_add x xs)"
  by (simp add: set_add_def)

lemma set_add_if_truthy: "set (add_if_truthy v xs) = set (present [v]) \<union> set xs"
  by (cases v) (auto simp: add_if_truthy_def present_def set_set_add)

lemma distinct_add_if_truthy: "distinct xs \<Longrightarrow> distinct (add_if_truthy v xs)"
  by (cases v) (simp_all add: add_if_truthy_def distinct_set_add)

lemma set_of_truthy_present: "set_of_truthy v = present [v]"
  by (cases v) (simp_all add: set_of_truthy_def present_def)

lemma distinct_set_of_truthy: "distinct (set_of_truthy v)"
  by (cases v) (simp_all add: set_of_truthy_def)

lemma present_Cons: "set (present (v # vs)) = set (present [v]) \<union> set (present vs)"
  by (simp add: present_def)

lemma set_add_Cons: "set_add x (y # ys) = (if x = y then y # ys else y # set_add x ys)"
  by (simp add: set_add_def)

lemma keys_map_set: "map fst (map_set k v m) = set_add k (map fst m)"
proof (induction m)
  case Nil
  show ?case by (simp add: set_add_def)
next
  case (Cons p m)
  then show ?case by (cases p) (simp add: set_add_Cons)
qed

lemma in_map_get: "distinct (map fst m) \<Longrightarrow> (k, v) \<in> set m \<Longrightarrow> map_get m k = Some v"
  by (induction m) (auto simp: rev_image_eqI)

subsection \<open>The grouping loop\<close>

lemma add_item_map_set:
  "add_item m x =
     map_set (pkg_of x) (case map_get m (pkg_of x) of Some e \<Rightarrow> update_group x e | None \<Rightarrow> new_group x) m"
  by (simp add: add_item_def split: option.splits)

lemma packageGroups_snoc: "packageGroups (fs @ [x]) = add_item (packageGroups fs) x"
  by (simp add: packageGroups_def)

lemma group_of_snoc:
  "group_of (fs @ [x]) = Some (case group_of fs of Some e \<Rightarrow> update_group x e | None \<Rightarrow> new_group x)"
  by (cases fs) simp_all

lemma map_get_packageGroups: "map_get (packageGroups fs) k = group_of (members k fs)"
proof (induction fs rule: rev_induct)
  case Nil
  show ?case by (simp add: packageGroups_def members_def)
next
  case (snoc x fs)
  show ?case
  proof (cases "pkg_of x = k")
    case True
    then have "members k (fs @ [x]) = members k fs @ [x]"
      by (simp add: members_def)
    with True snoc show ?thesis
      by (simp add: packageGroups_snoc add_item_map_set map_get_set group_of_snoc)
  next
    case False
    then have "members k (fs @ [x]) = members k fs"
      by (simp add: members_def)
    with False snoc show ?thesis
      by (auto simp add: packageGroups_snoc add_item_map_set map_get_set)
  qed
qed

lemma keys_packageGroups: "map fst (packageGroups fs) = first_seen fs"
proof (induction fs rule: rev_induct)
  case Nil
  show ?case by (simp add: packageGroups_def first_seen_def)
next
  case (snoc x fs)
  then show ?case
    by (simp add: packageGroups_snoc add_item_map_set keys_map_set first_seen_def)
qed

lemma distinct_first_seen: "distinct (first_seen fs)"
proof (induction fs rule: rev_induct)
  case Nil
  show ?case by (simp add: first_seen_def)
next
  case (snoc x fs)
  then show ?case by (simp add: first_seen_def distinct_set_add)
qed

lemma distinct_keys_packageGroups: "distinct (map fst (packageGroups fs))"
  by (simp add: keys_packageGroups distinct_first_seen)

lemma in_packageGroups:
  "g \<in> set (map_values (packageGroups fs)) \<Longrightarrow> \<exists>k. group_of (members k fs) = Some g"
proof -
  assume "g \<in> set (map_values (packageGroups fs))"
  then obtain k where "(k, g) \<in> set (packageGroups fs)"
    by (auto simp: map_values_def)
  then have "map_get (packageGroups fs) k = Some g"
    by (rule in_map_get [OF distinct_keys_packageGroups])
  then show ?thesis
    by (auto simp: map_get_packageGroups)
qed

subsection \<open>The fields of a group\<close>

lemma fold_update_package:
  "g_package (foldl (\<lambda>g x. update_group x g) g0 fs) = g_package g0"
  by (induction fs arbitrary: g0) (simp_all add: update_group_def)

lemma fold_update_count:
  "g_count (foldl (\<lambda>g x. update_group x g) g0 fs) = g_count g0 + length fs"
  by (induction fs arbitrary: g0) (simp_all add: update_group_def)

lemma fold_update_cves:
  "set (g_cves (foldl (\<lambda>g x. update_group x g) g0 fs)) = set (g_cves g0) \<union> set (map vuln_id fs)"
  by (induction fs arbitrary: g0) (auto simp: update_group_def set_set_add)

lemma fold_update_cves_distinct:
  "distinct (g_cves g0) \<Longrightarrow> distinct (g_cves (foldl (\<lambda>g x. update_group x g) g0 fs))"
  by (induction fs arbitrary: g0) (simp_all add: update_group_def distinct_set_add)

lemma fold_update_hosts:
  "set (g_hosts (foldl (\<lambda>g x. update_group x g) g0 fs)) = set (g_hosts g0) \<union> set (present (map hostname fs))"
proof (induction fs arbitrary: g0)
  case Nil
  show ?case by (simp add: present_def)
next
  case (Cons x fs)
  have "set (g_hosts (update_group x g0)) = set (present [hostname x]) \<union> set (g_hosts g0)"
    by (simp add: update_group_def set_add_if_truthy)
  with Cons [of "update_group x g0"] show ?case
    using present_Cons [of "hostname x" "map hostname fs"] by auto
qed

lemma fold_update_hosts_distinct:
  "distinct (g_hosts g0) \<Longrightarrow> distinct (g_hosts (foldl (\<lambda>g x. update_group x g) g0 fs))"
  by (induction fs arbitrary: g0) (simp_all add: update_group_def distinct_add_if_truthy)

lemma fold_update_fix:
  "set (g_fix_versions (foldl (\<lambda>g x. update_group x g) g0 fs)) =
     set (g_fix_versions g0) \<union> set (present (map fix_version fs))"
proof (induction fs arbitrary: g0)
  case Nil
  show ?case by (simp add: present_def)
next
  case (Cons x fs)
  have "set (g_fix_versions (update_group x g0)) = set (present [fix_version x]) \<union> set (g_fix_versions g0)"
    by (simp add: update_group_def set_add_if_truthy)
  with Cons [of "update_group x g0"] show ?case
    using present_Cons [of "fix_version x" "map fix_version fs"] by auto
qed

lemma fold_update_fix_distinct:
  "distinct (g_fix_versions g0) \<Longrightarrow> distinct (g_fix_versions (foldl (\<lambda>g x. update_group x g) g0 fs))"
  by (induction fs arbitrary: g0) (simp_all add: update_group_def distinct_add_if_truthy)

lemma fold_update_severity:
  "g_severity (foldl (\<lambda>g x. update_group x g) g0 fs) =
     (if \<exists>x \<in> set fs. severity x = Critical then Critical else g_severity g0)"
  by (induction fs arbitrary: g0) (auto simp: update_group_def)

subsection \<open>Sorting\<close>

lemma set_insert_by: "set (insert_by cmp x ys) = insert x (set ys)"
  by (induction ys) auto

lemma set_js_sort: "set (js_sort cmp xs) = set xs"
  by (induction xs) (simp_all add: set_insert_by)

lemma length_insert_by: "length (insert_by cmp x ys) = Suc (length ys)"
  by (induction ys) simp_all

lemma length_js_sort: "length (js_sort cmp xs) = length xs"
  by (induction xs) (simp_all add: length_insert_by)

lemma sorted_insert_by:
  assumes tot: "\<And>a b. a \<in> A \<Longrightarrow> b \<in> A \<Longrightarrow> cmp a b \<le> 0 \<or> cmp b a \<le> 0"
    and tr: "\<And>a b c. a \<in> A \<Longrightarrow> b \<in> A \<Longrightarrow> c \<in> A \<Longrightarrow> cmp a b \<le> 0 \<Longrightarrow> cmp b c \<le> 0 \<Longrightarrow> cmp a c \<le> 0"
    and x: "x \<in> A"
  shows "set ys \<subseteq> A \<Longrightarrow> sorted_wrt (\<lambda>a b. cmp a b \<le> 0) ys \<Longrightarrow>
         sorted_wrt (\<lambda>a b. cmp a b \<le> 0) (insert_by cmp x ys)"
proof (induction ys)
  case Nil
  show ?case by simp
next
  case (Cons y ys)
  show ?case
  proof (cases "cmp x y \<le> 0")
    case True
    have "cmp x z \<le> 0" if "z \<in> set ys" for z
    proof -
      from Cons.prems that have "cmp y z \<le> 0" "z \<in> A" "y \<in> A" by auto
      with True x show ?thesis using tr by blast
    qed
    with True Cons.prems show ?thesis by simp
  next
    case False
    from Cons.prems have y: "y \<in> A" by simp
    with False x tot have "cmp y x \<le> 0" by blast
    moreover from Cons have "sorted_wrt (\<lambda>a b. cmp a b \<le> 0) (insert_by cmp x ys)" by simp
    ultimately show ?thesis
      using False Cons.prems by (auto simp: set_insert_by)
  qed
qed

lemma sorted_js_sort:
  assumes tot: "\<And>a b. a \<in> A \<Longrightarrow> b \<in> A \<Longrightarrow> cmp a b \<le> 0 \<or> cmp b a \<le> 0"
    and tr: "\<And>a b c. a \<in> A \<Longrightarrow> b \<in> A \<Longrightarrow> c \<in> A \<Longrightarrow> cmp a b \<le> 0 \<Longrightarrow> cmp b c \<le> 0 \<Longrightarrow> cmp a c \<le> 0"
  shows "set xs \<subseteq> A \<Longrightarrow> sorted_wrt (\<lambda>a b. cmp a b \<le> 0) (js_sort cmp xs)"
proof (induction xs)
  case Nil
  show ?case by simp
next
  case (Cons x xs)
  then have s: "sorted_wrt (\<lambda>a b. cmp a b \<le> 0) (js_sort cmp xs)" by simp
  from Cons.prems have xa: "x \<in> A" and sub: "set (js_sort cmp xs) \<subseteq> A"
    by (simp_all add: set_js_sort)
  have "sorted_wrt (\<lambda>a b. cmp a b \<le> 0) (insert_by cmp x (js_sort cmp xs))"
    by (rule sorted_insert_by [where A = A, OF tot tr xa sub s])
  then show ?case by simp
qed

lemma filter_insert_by:
  assumes "\<And>y. y \<in> set ys \<Longrightarrow> P x \<Longrightarrow> P y \<Longrightarrow> cmp x y \<le> 0"
  shows "filter P (insert_by cmp x ys) = filter P (x # ys)"
  using assms
proof (induction ys)
  case Nil
  show ?case by simp
next
  case (Cons y ys)
  have IH: "filter P (insert_by cmp x ys) = filter P (x # ys)"
  proof (rule Cons.IH)
    fix z
    assume "z \<in> set ys" "P x" "P z"
    then show "cmp x z \<le> 0" using Cons.prems [of z] by simp
  qed
  show ?case
  proof (cases "cmp x y \<le> 0")
    case True
    then show ?thesis by simp
  next
    case False
    have "P x \<Longrightarrow> P y \<Longrightarrow> cmp x y \<le> 0"
      using Cons.prems [of y] by simp
    with False have "\<not> (P x \<and> P y)" by blast
    with False IH show ?thesis by auto
  qed
qed

lemma filter_js_sort:
  assumes "\<And>a b. a \<in> set xs \<Longrightarrow> b \<in> set xs \<Longrightarrow> P a \<Longrightarrow> P b \<Longrightarrow> cmp a b \<le> 0"
  shows "filter P (js_sort cmp xs) = filter P xs"
  using assms
proof (induction xs)
  case Nil
  show ?case by simp
next
  case (Cons x xs)
  have IH: "filter P (js_sort cmp xs) = filter P xs"
  proof (rule Cons.IH)
    fix a b
    assume "a \<in> set xs" "b \<in> set xs" "P a" "P b"
    then show "cmp a b \<le> 0" using Cons.prems [of a b] by simp
  qed
  have "filter P (insert_by cmp x (js_sort cmp xs)) = filter P (x # js_sort cmp xs)"
  proof (rule filter_insert_by)
    fix y
    assume "y \<in> set (js_sort cmp xs)" "P x" "P y"
    then show "cmp x y \<le> 0" using Cons.prems [of x y] by (simp add: set_js_sort)
  qed
  with IH show ?case by simp
qed

subsection \<open>The comparator\<close>

lemma group_cmp_le:
  "group_cmp a b \<le> 0 \<longleftrightarrow>
     (g_severity a \<noteq> g_severity b \<and> g_severity a = Critical) \<or>
     (g_severity a = g_severity b \<and> length (g_hosts b) \<le> length (g_hosts a))"
  by (simp add: group_cmp_def)

lemma group_cmp_code_before:
  "g_severity a = Critical \<or> g_severity a = s \<Longrightarrow> g_severity b = Critical \<or> g_severity b = s \<Longrightarrow>
   group_cmp a b \<le> 0 \<longleftrightarrow> code_before a b"
  by (auto simp: group_cmp_le code_before_def)

lemma group_severity:
  assumes "g \<in> set (map_values (packageGroups fs))"
    and "\<forall>f \<in> set fs. severity f = Critical \<or> severity f = s"
  shows "g_severity g = Critical \<or> g_severity g = s"
proof -
  from assms(1) obtain k where k: "group_of (members k fs) = Some g"
    using in_packageGroups by blast
  then obtain f rest where ms: "members k fs = f # rest"
    by (cases "members k fs") simp_all
  then have "f \<in> set fs" 
    by (metis filter_is_subset list.set_intros(1) members_def subsetD)
  with assms(2) have "severity f = Critical \<or> severity f = s" by blast
  moreover from k ms have "g = foldl (\<lambda>g x. update_group x g) (new_group f) rest" by simp
  ultimately show ?thesis
    by (auto simp: fold_update_severity new_group_def)
qed

lemma group_cmp_total:
  assumes "g_severity a = Critical \<or> g_severity a = s"
    and "g_severity b = Critical \<or> g_severity b = s"
  shows "group_cmp a b \<le> 0 \<or> group_cmp b a \<le> 0"
  unfolding group_cmp_le using assms by (metis nat_le_linear)

lemma shape_trans:
  fixes ha hb hc :: nat
  assumes "(sa \<noteq> sb \<and> sa = C) \<or> (sa = sb \<and> hb \<le> ha)"
    and "(sb \<noteq> sc \<and> sb = C) \<or> (sb = sc \<and> hc \<le> hb)"
    and "sb = C \<or> sb = s" and "sc = C \<or> sc = s"
  shows "(sa \<noteq> sc \<and> sa = C) \<or> (sa = sc \<and> hc \<le> ha)"
proof -
  consider (crit) "sa \<noteq> sb" "sa = C" | (same) "sa = sb" "hb \<le> ha"
    using assms(1) by blast
  then show ?thesis
  proof cases
    case crit
    with assms(3) have "sb = s" "s \<noteq> C" by auto
    with assms(2,4) have "sc = s" by auto
    with crit \<open>sb = s\<close> show ?thesis by simp
  next
    case same
    with assms(2) show ?thesis by auto
  qed
qed

lemma group_cmp_trans:
  assumes "g_severity b = Critical \<or> g_severity b = s"
    and "g_severity c = Critical \<or> g_severity c = s"
    and "group_cmp a b \<le> 0" and "group_cmp b c \<le> 0"
  shows "group_cmp a c \<le> 0"
  using assms(3,4) unfolding group_cmp_le
  by (rule shape_trans) (rule assms(1), rule assms(2))

lemma filtered_exposed:
  "f \<in> set (filtered flt data) \<Longrightarrow> internetExposed flt \<Longrightarrow> truthy (external_ip f)"
  by (cases data; cases "external_ip f") (auto simp: filtered_def matchesExposed_def truthy_def)

lemma group_of_members:
  assumes "g \<in> set (sortedPackages fs)"
  obtains f rest where "members (g_package g) fs = f # rest"
    and "g = foldl (\<lambda>g x. update_group x g) (new_group f) rest"
proof -
  from assms have "g \<in> set (map_values (packageGroups fs))"
    by (simp add: sortedPackages_def set_js_sort)
  then obtain k where k: "group_of (members k fs) = Some g"
    using in_packageGroups by blast
  then obtain f rest where ms: "members k fs = f # rest"
    and g: "g = foldl (\<lambda>g x. update_group x g) (new_group f) rest"
    by (cases "members k fs") auto
  from ms have "f \<in> set (members k fs)" by simp
  then have "pkg_of f = k" by (simp add: members_def)
  with g have "g_package g = k" by (simp add: fold_update_package new_group_def)
  with ms g that show ?thesis by blast
qed

subsection \<open>The loop as a relation\<close>

lemma group_loop_foldl: "group_loop m fs m' \<Longrightarrow> m' = foldl add_item m fs"
  by (induction rule: group_loop.induct) (simp_all add: add_item_def)

lemma foldl_group_loop: "group_loop m fs (foldl add_item m fs)"
proof (induction fs arbitrary: m)
  case Nil
  show ?case by (simp add: loop_end)
next
  case (Cons item fs)
  show ?case
  proof (cases "map_get m (pkg_of item)")
    case None
    then have "add_item m item = map_set (pkg_of item) (new_group item) m"
      by (simp add: add_item_def)
    with Cons [of "add_item m item"] None show ?thesis
      by (simp add: loop_new)
  next
    case (Some existing)
    then have "add_item m item = map_set (pkg_of item) (update_group item existing) m"
      by (simp add: add_item_def)
    with Cons [of "add_item m item"] Some show ?thesis
      by (simp add: loop_existing)
  qed
qed

lemma sortedPackages_run_iff: "sortedPackages_run fs out \<longleftrightarrow> out = sortedPackages fs"
proof
  assume "sortedPackages_run fs out"
  then show "out = sortedPackages fs"
    by (cases rule: sortedPackages_run.cases)
      (auto dest: group_loop_foldl simp: sortedPackages_def packageGroups_def)
next
  assume "out = sortedPackages fs"
  then show "sortedPackages_run fs out"
    using run_sorted [OF foldl_group_loop [of "[]" fs]]
    by (simp add: sortedPackages_def packageGroups_def)
qed

section \<open>Order of the package groups\<close>

text \<open>
  Claim C1, as stated, has groups that tie on severity and on the number of hosts in
  ascending order of the package name. The comparator never reads the name: two
  Critical groups with one host each stay in the order in which their packages first
  appear, here \<open>zlib\<close> before \<open>openssl\<close>.
\<close>

theorem name_tie_counterexample:
  "map (\<lambda>g. (g_package g, g_severity g, length (g_hosts g)))
      (sortedPackages
        [finding ''CVE-2024-0001'' ''Critical'' (Some ''zlib'') (Some ''web-1'') None,
         finding ''CVE-2024-0002'' ''Critical'' (Some ''openssl'') (Some ''web-2'') None])
     = [(''zlib'', ''Critical'', 1), (''openssl'', ''Critical'', 1)]
   \<and> \<not> sorted_wrt spec_before
      (sortedPackages
        [finding ''CVE-2024-0001'' ''Critical'' (Some ''zlib'') (Some ''web-1'') None,
         finding ''CVE-2024-0002'' ''Critical'' (Some ''openssl'') (Some ''web-2'') None])"
  by code_simp

text \<open>
  Claim C1, amended. When every finding is Critical or of one other severity, the
  comparator is a consistent ordering and the groups come out with every Critical
  group before every other group and, within one severity, in descending order of the
  number of hosts. The sort is stable: the groups of one severity and one number of
  hosts keep the order they have in the map, which is the order in which their
  packages first appear in the list. The sorted list holds the groups of the map, one
  for each package. (With two or more severities other than Critical among the
  findings the comparator is not a consistent ordering, and the order of the groups is
  then left to the implementation of \<open>sort\<close>.)
\<close>

theorem sortedPackages_order:
  assumes "\<forall>f \<in> set fs. severity f = Critical \<or> severity f = s"
  shows "sorted_wrt code_before (sortedPackages fs)
     \<and> (\<forall>sv n. filter (\<lambda>g. g_severity g = sv \<and> length (g_hosts g) = n) (sortedPackages fs)
               = filter (\<lambda>g. g_severity g = sv \<and> length (g_hosts g) = n) (map_values (packageGroups fs)))
     \<and> map g_package (map_values (packageGroups fs)) = first_seen fs
     \<and> set (sortedPackages fs) = set (map_values (packageGroups fs))
     \<and> length (sortedPackages fs) = length (first_seen fs)"
proof -
  let ?G = "{g. g_severity g = Critical \<or> g_severity g = s}"
  let ?gs = "map_values (packageGroups fs)"
  have sub: "set ?gs \<subseteq> ?G"
    using group_severity [OF _ assms] by blast
  have tot: "group_cmp a b \<le> 0 \<or> group_cmp b a \<le> 0" if "a \<in> ?G" "b \<in> ?G" for a b
    using that group_cmp_total [of a s b] by simp
  have tr: "group_cmp a c \<le> 0"
    if "a \<in> ?G" "b \<in> ?G" "c \<in> ?G" "group_cmp a b \<le> 0" "group_cmp b c \<le> 0" for a b c
    using that group_cmp_trans [of b s c a] by simp
  have "sorted_wrt (\<lambda>a b. group_cmp a b \<le> 0) (js_sort group_cmp ?gs)"
    by (rule sorted_js_sort [where A = ?G, OF tot tr sub])
  then have "sorted_wrt code_before (js_sort group_cmp ?gs)"
  proof (rule sorted_wrt_mono_rel [rotated])
    fix a b
    assume "a \<in> set (js_sort group_cmp ?gs)" "b \<in> set (js_sort group_cmp ?gs)" "group_cmp a b \<le> 0"
    with sub show "code_before a b"
      using group_cmp_code_before [of a s b] by (auto simp: set_js_sort)
  qed
  then have 1: "sorted_wrt code_before (sortedPackages fs)"
    by (simp add: sortedPackages_def)
  have 2: "filter (\<lambda>g. g_severity g = sv \<and> length (g_hosts g) = n) (sortedPackages fs)
               = filter (\<lambda>g. g_severity g = sv \<and> length (g_hosts g) = n) ?gs" for sv n
    unfolding sortedPackages_def
    by (rule filter_js_sort) (simp add: group_cmp_le)
  have "g_package g = k" if "(k, g) \<in> set (packageGroups fs)" for k g
  proof -
    from that have "group_of (members k fs) = Some g"
      using in_map_get [OF distinct_keys_packageGroups] by (simp add: map_get_packageGroups)
    then obtain f rest where ms: "members k fs = f # rest"
      and g: "g = foldl (\<lambda>g x. update_group x g) (new_group f) rest"
      by (cases "members k fs") auto
    from ms have "f \<in> set (members k fs)" by simp
    then have "pkg_of f = k" by (simp add: members_def)
    with g show ?thesis by (simp add: fold_update_package new_group_def)
  qed
  then have "map g_package ?gs = map fst (packageGroups fs)"
    by (auto simp: map_values_def)
  then have 3: "map g_package ?gs = first_seen fs"
    by (simp add: keys_packageGroups)
  have 4: "set (sortedPackages fs) = set ?gs"
    by (simp add: sortedPackages_def set_js_sort)
  have "length (sortedPackages fs) = length (map fst (packageGroups fs))"
    by (simp add: sortedPackages_def length_js_sort map_values_def)
  then have 5: "length (sortedPackages fs) = length (first_seen fs)"
    by (simp add: keys_packageGroups)
  from 1 2 3 4 5 show ?thesis by blast
qed

theorem sortedPackages_order_witness:
  "sorted_wrt code_before
      (sortedPackages
        [finding ''CVE-2024-0001'' ''High'' (Some ''zlib'') (Some ''web-1'') None,
         finding ''CVE-2024-0002'' ''Critical'' (Some ''curl'') (Some ''web-2'') None,
         finding ''CVE-2024-0003'' ''Critical'' (Some ''bash'') (Some ''web-2'') None,
         finding ''CVE-2024-0004'' ''Critical'' (Some ''glibc'') (Some ''web-2'') None,
         finding ''CVE-2024-0004'' ''Critical'' (Some ''glibc'') (Some ''web-3'') None])
   \<and> map g_package
      (sortedPackages
        [finding ''CVE-2024-0001'' ''High'' (Some ''zlib'') (Some ''web-1'') None,
         finding ''CVE-2024-0002'' ''Critical'' (Some ''curl'') (Some ''web-2'') None,
         finding ''CVE-2024-0003'' ''Critical'' (Some ''bash'') (Some ''web-2'') None,
         finding ''CVE-2024-0004'' ''Critical'' (Some ''glibc'') (Some ''web-2'') None,
         finding ''CVE-2024-0004'' ''Critical'' (Some ''glibc'') (Some ''web-3'') None])
     = [''glibc'', ''curl'', ''bash'', ''zlib'']"
proof -
  let ?fs = "[finding ''CVE-2024-0001'' ''High'' (Some ''zlib'') (Some ''web-1'') None,
         finding ''CVE-2024-0002'' ''Critical'' (Some ''curl'') (Some ''web-2'') None,
         finding ''CVE-2024-0003'' ''Critical'' (Some ''bash'') (Some ''web-2'') None,
         finding ''CVE-2024-0004'' ''Critical'' (Some ''glibc'') (Some ''web-2'') None,
         finding ''CVE-2024-0004'' ''Critical'' (Some ''glibc'') (Some ''web-3'') None]"
  have h: "\<forall>f \<in> set ?fs. severity f = Critical \<or> severity f = ''High''"
    by (simp add: finding_def Critical_def)
  have "sorted_wrt code_before (sortedPackages ?fs)"
    using sortedPackages_order [OF h] by blast
  moreover have "map g_package (sortedPackages ?fs) = [''glibc'', ''curl'', ''bash'', ''zlib'']"
    by code_simp
  ultimately show ?thesis by blast
qed

section \<open>Severity of a group\<close>

text \<open>
  Claim C2 at a failing input. A group takes the severity of its first finding and
  only a Critical finding replaces it. For a Medium finding followed by a High one of
  the same package the group reports Medium, although the worst severity among the two
  is High; with the two findings in the other order it reports High.
\<close>

theorem group_severity_not_worst:
  "map g_severity
      (sortedPackages
        [finding ''CVE-2024-0001'' ''Medium'' (Some ''openssl'') (Some ''web-1'') None,
         finding ''CVE-2024-0002'' ''High'' (Some ''openssl'') (Some ''web-2'') None]) = [''Medium'']
   \<and> worst_rank
        [finding ''CVE-2024-0001'' ''Medium'' (Some ''openssl'') (Some ''web-1'') None,
         finding ''CVE-2024-0002'' ''High'' (Some ''openssl'') (Some ''web-2'') None] = severity_rank ''High''
   \<and> severity_rank ''Medium'' < severity_rank ''High''
   \<and> map g_severity
      (sortedPackages
        [finding ''CVE-2024-0002'' ''High'' (Some ''openssl'') (Some ''web-2'') None,
         finding ''CVE-2024-0001'' ''Medium'' (Some ''openssl'') (Some ''web-1'') None]) = [''High'']"
  by code_simp

section \<open>Determinism of the grouping\<close>

text \<open>
  Claim C5. The grouping computation, read as a relation between the list of findings
  and a result, has a result for every list and never two different ones: any two runs
  on the same list give the same groups in the same order, hence the same counts and
  the same rows of the export.
\<close>

theorem sortedPackages_deterministic:
  "sortedPackages_run fs (sortedPackages fs)
   \<and> (\<forall>out1 out2. sortedPackages_run fs out1 \<longrightarrow> sortedPackages_run fs out2 \<longrightarrow>
         out1 = out2 \<and> map g_count out1 = map g_count out2 \<and> csvPackages out1 = csvPackages out2)"
  by (simp add: sortedPackages_run_iff)

theorem sortedPackages_deterministic_witness:
  "sortedPackages_run
     [finding ''CVE-2024-1111'' ''Critical'' (Some ''openssl'') (Some ''web-1'') (Some ''1.2.3.4''),
      finding ''CVE-2024-1111'' ''Critical'' (Some ''openssl'') (Some ''web-2'') None]
     [\<lparr> g_package = ''openssl'', g_severity = ''Critical'', g_versions = [], g_fix_versions = [],
        g_cves = [''CVE-2024-1111''], g_hosts = [''web-1'', ''web-2''], g_instances = [''t1''],
        g_count = 2 \<rparr>]"
proof -
  let ?fs = "[finding ''CVE-2024-1111'' ''Critical'' (Some ''openssl'') (Some ''web-1'') (Some ''1.2.3.4''),
      finding ''CVE-2024-1111'' ''Critical'' (Some ''openssl'') (Some ''web-2'') None]"
  have "sortedPackages ?fs = [\<lparr> g_package = ''openssl'', g_severity = ''Critical'', g_versions = [], g_fix_versions = [],
        g_cves = [''CVE-2024-1111''], g_hosts = [''web-1'', ''web-2''], g_instances = [''t1''],
        g_count = 2 \<rparr>]"
    by code_simp
  with sortedPackages_deterministic [of ?fs] show ?thesis by simp
qed

section \<open>The sets of a group\<close>

text \<open>
  Claim C6, as stated, classifies a group as internet exposed when one of its findings
  is. A group has no such classification: the two findings of the example give the
  same group whether or not the first carries an external IP. Exposure is decided for
  each finding by the filter before the grouping, and with the filter on, as the page
  opens, the finding without an external IP is left out and the group reports one
  affected host.
\<close>

theorem group_exposure_counterexample:
  "sortedPackages
     [finding ''CVE-2024-1111'' ''Critical'' (Some ''openssl'') (Some ''web-1'') (Some ''1.2.3.4''),
      finding ''CVE-2024-1111'' ''Critical'' (Some ''openssl'') (Some ''web-2'') None]
   = sortedPackages
     [finding ''CVE-2024-1111'' ''Critical'' (Some ''openssl'') (Some ''web-1'') None,
      finding ''CVE-2024-1111'' ''Critical'' (Some ''openssl'') (Some ''web-2'') None]
   \<and> map affected_hosts (csvPackages (sortedPackages (filtered initial_filters
        (Some \<lparr> total_critical = 2, total_high = 0, items =
          [finding ''CVE-2024-1111'' ''Critical'' (Some ''openssl'') (Some ''web-1'') (Some ''1.2.3.4''),
           finding ''CVE-2024-1111'' ''Critical'' (Some ''openssl'') (Some ''web-2'') None] \<rparr>)))) = [1]"
  by code_simp

text \<open>
  Claim C6, amended. The members of a group are the findings of its package in the
  grouped list, and there is at least one. The count of the group is their number; its
  CVEs are their CVE identifiers, each once, so that the reported CVE count is the
  number of distinct identifiers; its hosts are their non-empty host names, each once,
  so that the affected-host count is the number of distinct non-empty host names; its
  fix versions are their non-empty fix versions, each once. When the grouped list is
  the filtered list and the exposure filter is on, every member is an exposed finding.
\<close>

theorem package_group_sets:
  assumes "g \<in> set (sortedPackages fs)"
  shows "members (g_package g) fs \<noteq> []
    \<and> g_count g = length (members (g_package g) fs)
    \<and> distinct (g_cves g)
    \<and> set (g_cves g) = set (map vuln_id (members (g_package g) fs))
    \<and> cve_count (package_row g) = card (set (map vuln_id (members (g_package g) fs)))
    \<and> distinct (g_hosts g)
    \<and> set (g_hosts g) = set (present (map hostname (members (g_package g) fs)))
    \<and> affected_hosts (package_row g) = card (set (present (map hostname (members (g_package g) fs))))
    \<and> distinct (g_fix_versions g)
    \<and> set (g_fix_versions g) = set (present (map fix_version (members (g_package g) fs)))
    \<and> (fs = filtered flt data \<and> internetExposed flt \<longrightarrow>
          (\<forall>f \<in> set (members (g_package g) fs). truthy (external_ip f)))"
proof -
  let ?ms = "members (g_package g) fs"
  from assms obtain f rest where ms: "?ms = f # rest"
    and g: "g = foldl (\<lambda>g x. update_group x g) (new_group f) rest"
    by (rule group_of_members)
  have 1: "?ms \<noteq> []" by (simp add: ms)
  have 2: "g_count g = length ?ms"
    by (simp add: ms) (simp add: g fold_update_count new_group_def)
  have 3: "distinct (g_cves g)"
    unfolding g by (rule fold_update_cves_distinct) (simp add: new_group_def)
  have 4: "set (g_cves g) = set (map vuln_id ?ms)"
    by (simp add: ms) (simp add: g fold_update_cves new_group_def)
  have 5: "cve_count (package_row g) = card (set (map vuln_id ?ms))"
    using 3 4 distinct_card [of "g_cves g"] by (simp add: package_row_def)
  have 6: "distinct (g_hosts g)"
    unfolding g by (rule fold_update_hosts_distinct) (simp add: new_group_def distinct_set_of_truthy)
  have "set (g_hosts g) = set (present [hostname f]) \<union> set (present (map hostname rest))"
    by (simp add: g fold_update_hosts new_group_def set_of_truthy_present)
  then have 7: "set (g_hosts g) = set (present (map hostname ?ms))"
    by (simp add: ms present_def)
  have 8: "affected_hosts (package_row g) = card (set (present (map hostname ?ms)))"
    using 6 7 distinct_card [of "g_hosts g"] by (simp add: package_row_def)
  have 9: "distinct (g_fix_versions g)"
    unfolding g by (rule fold_update_fix_distinct) (simp add: new_group_def distinct_set_of_truthy)
  have "set (g_fix_versions g) = set (present [fix_version f]) \<union> set (present (map fix_version rest))"
    by (simp add: g fold_update_fix new_group_def set_of_truthy_present)
  then have 10: "set (g_fix_versions g) = set (present (map fix_version ?ms))"
    by (simp add: ms present_def)
  have 11: "fs = filtered flt data \<and> internetExposed flt \<longrightarrow>
          (\<forall>f \<in> set ?ms. truthy (external_ip f))"
  proof (intro impI ballI)
    fix x
    assume a: "fs = filtered flt data \<and> internetExposed flt" and b: "x \<in> set ?ms"
    from b have "x \<in> set fs" by (simp add: members_def)
    with a show "truthy (external_ip x)"
      using filtered_exposed [of x flt data] by simp
  qed
  from 1 2 3 4 5 6 7 8 9 10 11 show ?thesis by blast
qed

theorem package_group_sets_witness:
  "sortedPackages
     [finding ''CVE-2024-1111'' ''Critical'' (Some ''openssl'') (Some ''web-1'') (Some ''1.2.3.4''),
      finding ''CVE-2024-1111'' ''Critical'' (Some ''openssl'') (Some ''web-2'') None]
   = [\<lparr> g_package = ''openssl'', g_severity = ''Critical'', g_versions = [], g_fix_versions = [],
        g_cves = [''CVE-2024-1111''], g_hosts = [''web-1'', ''web-2''], g_instances = [''t1''],
        g_count = 2 \<rparr>]
   \<and> cve_count (package_row
        \<lparr> g_package = ''openssl'', g_severity = ''Critical'', g_versions = [], g_fix_versions = [],
          g_cves = [''CVE-2024-1111''], g_hosts = [''web-1'', ''web-2''], g_instances = [''t1''],
          g_count = 2 \<rparr>) = 1
   \<and> affected_hosts (package_row
        \<lparr> g_package = ''openssl'', g_severity = ''Critical'', g_versions = [], g_fix_versions = [],
          g_cves = [''CVE-2024-1111''], g_hosts = [''web-1'', ''web-2''], g_instances = [''t1''],
          g_count = 2 \<rparr>) = 2
   \<and> list_all (\<lambda>f. truthy (external_ip f))
        (members ''openssl'' (filtered initial_filters
          (Some \<lparr> total_critical = 2, total_high = 0, items =
            [finding ''CVE-2024-1111'' ''Critical'' (Some ''openssl'') (Some ''web-1'') (Some ''1.2.3.4''),
             finding ''CVE-2024-1111'' ''Critical'' (Some ''openssl'') (Some ''web-2'') None] \<rparr>)))"
proof -
  let ?fs = "[finding ''CVE-2024-1111'' ''Critical'' (Some ''openssl'') (Some ''web-1'') (Some ''1.2.3.4''),
      finding ''CVE-2024-1111'' ''Critical'' (Some ''openssl'') (Some ''web-2'') None]"
  let ?g = "\<lparr> g_package = ''openssl'', g_severity = ''Critical'', g_versions = [], g_fix_versions = [],
        g_cves = [''CVE-2024-1111''], g_hosts = [''web-1'', ''web-2''], g_instances = [''t1''],
        g_count = 2 \<rparr>"
  let ?data = "Some \<lparr> total_critical = 2, total_high = 0, items = ?fs \<rparr>"
  let ?h = "\<lparr> g_package = ''openssl'', g_severity = ''Critical'', g_versions = [], g_fix_versions = [],
        g_cves = [''CVE-2024-1111''], g_hosts = [''web-1''], g_instances = [''t1''],
        g_count = 1 \<rparr>"
  have s: "sortedPackages ?fs = [?g]"
    by code_simp
  then have "?g \<in> set (sortedPackages ?fs)" by simp
  from package_group_sets [OF this]
  have "cve_count (package_row ?g) = card (set (map vuln_id (members (g_package ?g) ?fs)))"
    and "affected_hosts (package_row ?g) = card (set (present (map hostname (members (g_package ?g) ?fs))))"
    by blast+
  moreover have "card (set (map vuln_id (members (g_package ?g) ?fs))) = 1"
    by (simp add: members_def pkg_of_def finding_def)
  moreover have "card (set (present (map hostname (members (g_package ?g) ?fs)))) = 2"
    by (simp add: members_def pkg_of_def finding_def present_def)
  ultimately have a: "cve_count (package_row ?g) = 1 \<and> affected_hosts (package_row ?g) = 2"
    by simp
  have "sortedPackages (filtered initial_filters ?data) = [?h]"
    by code_simp
  then have "?h \<in> set (sortedPackages (filtered initial_filters ?data))" by simp
  from package_group_sets [OF this, of initial_filters ?data]
  have "\<forall>f \<in> set (members (g_package ?h) (filtered initial_filters ?data)). truthy (external_ip f)"
    by (simp add: initial_filters_def)
  then have b: "list_all (\<lambda>f. truthy (external_ip f)) (members ''openssl'' (filtered initial_filters ?data))"
    by (simp add: list_all_iff)
  from s a b show ?thesis by simp
qed

section \<open>Internet exposure of a finding\<close>

text \<open>
  Claim C3. A finding counts as internet exposed exactly when its external IP is
  present and not the empty string. This is so at both places that classify: the
  filter of the table with the toggle on (with the toggle off every finding passes),
  and the test of the header counts, so that \<open>exposedCritical\<close> counts the Critical
  findings with such an IP. No other attribute takes part: a finding passes the filter
  exactly when any other finding given the same external IP does.
\<close>

theorem exposure_classification:
  "(matchesExposed (flt\<lparr>internetExposed := True\<rparr>) item \<longleftrightarrow>
      (\<exists>ip. external_ip item = Some ip \<and> ip \<noteq> []))
   \<and> (truthy (external_ip item) \<longleftrightarrow> (\<exists>ip. external_ip item = Some ip \<and> ip \<noteq> []))
   \<and> matchesExposed (flt\<lparr>internetExposed := False\<rparr>) item
   \<and> matchesExposed flt (other\<lparr>external_ip := external_ip item\<rparr>) = matchesExposed flt item
   \<and> exposedCritical (Some d) =
       length (filter (\<lambda>i. severity i = Critical \<and> (\<exists>ip. external_ip i = Some ip \<and> ip \<noteq> []))
                 (items d))
   \<and> exposedCritical None = 0"
proof -
  have a: "matchesExposed (flt\<lparr>internetExposed := True\<rparr>) item \<longleftrightarrow>
      (\<exists>ip. external_ip item = Some ip \<and> ip \<noteq> [])"
    by (cases "external_ip item") (simp_all add: matchesExposed_def)
  have b: "matchesExposed (flt\<lparr>internetExposed := False\<rparr>) item"
    by (simp add: matchesExposed_def)
  have c: "matchesExposed flt (other\<lparr>external_ip := external_ip item\<rparr>) = matchesExposed flt item"
    by (simp add: matchesExposed_def)
  have e: "exposedCritical (Some d) =
       length (filter (\<lambda>i. severity i = Critical \<and> (\<exists>ip. external_ip i = Some ip \<and> ip \<noteq> []))
                 (items d))"
    by (simp add: exposedCritical_def truthy_iff)
  have f: "exposedCritical None = 0"
    by (simp add: exposedCritical_def)
  from a b c e f truthy_iff show ?thesis by blast
qed

theorem exposure_classification_witness:
  "matchesExposed initial_filters
      (finding ''CVE-2024-1111'' ''Critical'' (Some ''openssl'') (Some ''web-1'') (Some ''1.2.3.4''))
   \<and> \<not> matchesExposed initial_filters
      (finding ''CVE-2024-1111'' ''Critical'' (Some ''openssl'') (Some ''web-2'') None)
   \<and> \<not> matchesExposed initial_filters
      (finding ''CVE-2024-1111'' ''Critical'' (Some ''openssl'') (Some ''web-3'') (Some []))"
  using
    exposure_classification [of initial_filters
      "finding ''CVE-2024-1111'' ''Critical'' (Some ''openssl'') (Some ''web-1'') (Some ''1.2.3.4'')"]
    exposure_classification [of initial_filters
      "finding ''CVE-2024-1111'' ''Critical'' (Some ''openssl'') (Some ''web-2'') None"]
    exposure_classification [of initial_filters
      "finding ''CVE-2024-1111'' ''Critical'' (Some ''openssl'') (Some ''web-3'') (Some [])"]
  by (simp add: initial_filters_def finding_def)

section \<open>Stale identities\<close>

text \<open>
  Claim C4, as the specification states it, takes an identity with no last-used
  timestamp as stale. The filter does not: with the toggle "Unused 180d+" on, an
  identity whose \<open>last_used\<close> and \<open>days_unused\<close> are both null is left out.
\<close>

theorem stale_null_counterexample:
  "\<not> matchesUnused True \<lparr> last_used = None, days_unused = None \<rparr>"
  by (simp add: matchesUnused_def)

text \<open>
  Claim C4, amended. With the toggle on, the filter keeps exactly the identities whose
  \<open>days_unused\<close> is a number of at least 180 (with the toggle off it keeps all), so an
  identity without that number is never kept. The cell shows the number of days
  whenever there is one, in the red class exactly from 180 days on, and shows
  \<open>never\<close> exactly when there is neither a number of days nor a non-empty timestamp.
\<close>

theorem stale_classification:
  "(matchesUnused True item \<longleftrightarrow> (\<exists>d. days_unused item = Some d \<and> 180 \<le> d))
   \<and> matchesUnused False item
   \<and> (last_used_cell item = Never \<longleftrightarrow> days_unused item = None \<and> \<not> truthy (last_used item))
   \<and> (\<forall>d. days_unused item = Some d \<longrightarrow>
         (\<exists>cls. last_used_cell item = DaysAgo d cls \<and>
                (cls = ''text-red-600 dark:text-red-400 font-medium'' \<longleftrightarrow> 180 \<le> d)))"
proof -
  have a: "matchesUnused True item \<longleftrightarrow> (\<exists>d. days_unused item = Some d \<and> 180 \<le> d)"
    by (cases "days_unused item") (simp_all add: matchesUnused_def)
  have b: "matchesUnused False item"
    by (simp add: matchesUnused_def)
  have c: "last_used_cell item = Never \<longleftrightarrow> days_unused item = None \<and> \<not> truthy (last_used item)"
    by (cases "days_unused item"; cases "last_used item")
      (simp_all add: last_used_cell_def truthy_def)
  have e: "\<forall>d. days_unused item = Some d \<longrightarrow>
         (\<exists>cls. last_used_cell item = DaysAgo d cls \<and>
                (cls = ''text-red-600 dark:text-red-400 font-medium'' \<longleftrightarrow> 180 \<le> d))"
    by (simp add: last_used_cell_def)
  from a b c e show ?thesis by blast
qed

theorem stale_classification_witness:
  "matchesUnused True \<lparr> last_used = Some ''2024-01-01'', days_unused = Some 200 \<rparr>
   \<and> last_used_cell \<lparr> last_used = Some ''2024-01-01'', days_unused = Some 200 \<rparr>
       = DaysAgo 200 ''text-red-600 dark:text-red-400 font-medium''
   \<and> last_used_cell \<lparr> last_used = None, days_unused = None \<rparr> = Never"
  using stale_classification [of "\<lparr> last_used = Some ''2024-01-01'', days_unused = Some 200 \<rparr>"]
    stale_classification [of "\<lparr> last_used = None, days_unused = None \<rparr>"]
  by (simp add: truthy_def)

section \<open>Unused-entitlement percentage\<close>

text \<open>
  Claim C8. For every identity the computation of the percentage ends without a fault,
  whatever the two counts are, and in particular when the total is 0, where the result
  is 0. Otherwise the result is a hundred times unused over total. It is never
  negative, and it is at most 100 for the statistics of an identity, whose unused
  entitlements do not exceed the total.
\<close>

theorem unused_pct_no_fault_in_range:
  "\<exists>p. unused_entitlement_pct st = Inr p
       \<and> 0 \<le> p
       \<and> (entitlements_unused st \<le> entitlements_total st \<longrightarrow> p \<le> 100)
       \<and> (entitlements_total st = 0 \<longrightarrow> p = 0)
       \<and> (entitlements_total st \<noteq> 0 \<longrightarrow>
             p = 100 * (real (entitlements_unused st) / real (entitlements_total st)))"
proof (cases "entitlements_total st = 0")
  case True
  then have "unused_entitlement_pct st = Inr 0"
    by (simp add: unused_entitlement_pct_def)
  with True show ?thesis by simp
next
  case False
  let ?p = "100 * (real (entitlements_unused st) / real (entitlements_total st))"
  from False have e: "unused_entitlement_pct st = Inr ?p"
    by (simp add: unused_entitlement_pct_def divide_or_fault_def)
  have lo: "0 \<le> ?p" by simp
  have hi: "?p \<le> 100" if "entitlements_unused st \<le> entitlements_total st"
  proof -
    from that False have "real (entitlements_unused st) / real (entitlements_total st) \<le> 1"
      by (simp add: divide_le_eq)
    then show ?thesis by simp
  qed
  from e lo hi False show ?thesis by simp
qed

theorem unused_pct_example:
  "unused_entitlement_pct \<lparr> entitlements_total = 4, entitlements_unused = 3 \<rparr> = Inr 75
   \<and> unused_entitlement_pct \<lparr> entitlements_total = 0, entitlements_unused = 0 \<rparr> = Inr 0"
proof -
  obtain p where "unused_entitlement_pct \<lparr> entitlements_total = 4, entitlements_unused = 3 \<rparr> = Inr p"
    and "p = 100 * (real 3 / real 4)" and "p \<le> 100"
    using unused_pct_no_fault_in_range [of "\<lparr> entitlements_total = 4, entitlements_unused = 3 \<rparr>"]
    by auto
  moreover obtain q where "unused_entitlement_pct \<lparr> entitlements_total = 0, entitlements_unused = 0 \<rparr> = Inr q"
    and "q = 0"
    using unused_pct_no_fault_in_range [of "\<lparr> entitlements_total = 0, entitlements_unused = 0 \<rparr>"]
    by auto
  ultimately show ?thesis by simp
qed

section \<open>CSV export\<close>

lemma replace_quotes_quoted_body: "replace_quotes s @ [dquote] = quoted_body s"
  by (induction s) (simp_all add: replace_quotes_def)

lemma needs_quoting_iff:
  "needs_quoting s \<longleftrightarrow> CHR '','' \<in> set s \<or> dquote \<in> set s \<or> newline \<in> set s"
  by (auto simp: needs_quoting_def)



lemma escapeCsvField_cases:
  "escapeCsvField conv v =
     (if v = JNull \<or> v = JUndefined then []
      else if needs_quoting (js_String conv v) then quoted (js_String conv v)
      else js_String conv v)"
proof -
  have "[dquote] @ replace_quotes s @ [dquote] = quoted s" for s
    by (simp add: quoted_def replace_quotes_quoted_body)
  then show ?thesis
    by (simp add: escapeCsvField_def needs_quoting_iff Let_def)
qed

lemma escapeCsvField_call_Converts:
  "escapeCsvField_call conv (Converts v) = Inr (escapeCsvField conv v)"
  by (simp add: escapeCsvField_call_def String_call_def escapeCsvField_def Let_def)

lemma escapeCsvField_call_Throws: "escapeCsvField_call conv (Throws e) = Inl e"
  by (simp add: escapeCsvField_call_def String_call_def)

text \<open>
  Claim C9, as stated, has \<open>escapeCsvField\<close> return a string for every input value.
  For an object that \<open>String(...)\<close> cannot convert, such as \<open>Object.create(null)\<close>, the
  conversion throws a \<open>TypeError\<close>, nothing catches it, and the call returns no string.
\<close>

theorem escapeCsvField_throws:
  "escapeCsvField_call (\<lambda>b::bool. if b then ''true'' else ''false'') (Throws TypeError) = Inl TypeError
   \<and> \<not> (\<exists>s. escapeCsvField_call (\<lambda>b::bool. if b then ''true'' else ''false'') (Throws TypeError) = Inr s)"
  by (simp add: escapeCsvField_call_def String_call_def)

text \<open>
  Claim C9, amended. A call of \<open>escapeCsvField\<close> returns the empty string for \<open>null\<close> and
  \<open>undefined\<close>. For any other value that \<open>String(...)\<close> converts it returns the string
  form of the value, as it is when it holds no comma, double quote or newline, and
  else between two double quotes with each double quote of the text written twice and
  every other character kept. For a value whose conversion throws, the call throws
  the same exception and returns nothing.
\<close>

theorem escapeCsvField_call_result:
  "escapeCsvField_call conv u =
     (case u of
        Throws e \<Rightarrow> Inl e
      | Converts v \<Rightarrow>
          Inr (if v = JNull \<or> v = JUndefined then []
               else if needs_quoting (js_String conv v) then quoted (js_String conv v)
               else js_String conv v))"
proof (cases u)
  case (Converts v)
  then show ?thesis
    using escapeCsvField_cases [of conv v] by (simp add: escapeCsvField_call_Converts)
next
  case (Throws e)
  then show ?thesis by (simp add: escapeCsvField_call_Throws)
qed

theorem escapeCsvField_call_example:
  "escapeCsvField_call (\<lambda>b::bool. if b then ''true'' else ''false'')
      (Converts (JString [CHR ''a'', dquote, CHR '','', CHR ''b'']))
     = Inr [dquote, CHR ''a'', dquote, dquote, CHR '','', CHR ''b'', dquote]
   \<and> escapeCsvField_call (\<lambda>b::bool. if b then ''true'' else ''false'') (Converts (JOther True))
     = Inr ''true''
   \<and> escapeCsvField_call (\<lambda>b::bool. if b then ''true'' else ''false'') (Converts JNull) = Inr []
   \<and> escapeCsvField_call (\<lambda>b::bool. if b then ''true'' else ''false'') (Converts JUndefined) = Inr []
   \<and> escapeCsvField_call (\<lambda>b::bool. if b then ''true'' else ''false'') (Throws (Thrown ''boom''))
     = Inl (Thrown ''boom'')"
  using
    escapeCsvField_call_result [of "\<lambda>b::bool. if b then ''true'' else ''false''"
      "Converts (JString [CHR ''a'', dquote, CHR '','', CHR ''b''])"]
    escapeCsvField_call_result [of "\<lambda>b::bool. if b then ''true'' else ''false''" "Converts (JOther True)"]
    escapeCsvField_call_result [of "\<lambda>b::bool. if b then ''true'' else ''false''" "Converts JNull"]
    escapeCsvField_call_result [of "\<lambda>b::bool. if b then ''true'' else ''false''" "Converts JUndefined"]
    escapeCsvField_call_result [of "\<lambda>b::bool. if b then ''true'' else ''false''" "Throws (Thrown ''boom'')"]
  by (simp add: needs_quoting_def quoted_def js_String_def dquote_def newline_def)



end
